theory Spec2Isabelle
  imports Complex_Main "HOL-Library.Sublist"
begin

section \<open>Text primitives used by \<^verbatim>\<open>cai_trial.py\<close>\<close>

text \<open>
  Python strings are modelled as \<^typ>\<open>string\<close>; a \<^typ>\<open>char\<close> stands for a code point
  below 256. \<^verbatim>\<open>str.isspace\<close> holds on exactly these code points of that range:
  9 to 13, 28 to 31, 32, 133 and 160.
\<close>

definition is_space :: "char \<Rightarrow> bool" where
  "is_space c =
     (let n = (of_char c :: nat)
      in (9 \<le> n \<and> n \<le> 13) \<or> (28 \<le> n \<and> n \<le> 32) \<or> n = 133 \<or> n = 160)"

text \<open>\<^verbatim>\<open>str.lower\<close> on one code point below 256: the capitals A to Z, and the Latin-1
  capitals 192 to 222 without the multiplication sign 215, move up by 32.\<close>

definition lower_char :: "char \<Rightarrow> char" where
  "lower_char c =
     (let n = (of_char c :: nat)
      in if (65 \<le> n \<and> n \<le> 90) \<or> (192 \<le> n \<and> n \<le> 222 \<and> n \<noteq> 215)
         then char_of (n + 32) else c)"

definition lower :: "string \<Rightarrow> string" where
  "lower s = map lower_char s"

text \<open>\<^verbatim>\<open>str.split()\<close> without argument: the maximal runs of non-space characters, in order.
  The first argument is the word read so far.\<close>

fun split_acc :: "string \<Rightarrow> string \<Rightarrow> string list" where
  "split_acc w [] = (if w = [] then [] else [w])"
| "split_acc w (c # cs) =
     (if is_space c then (if w = [] then split_acc [] cs else w # split_acc [] cs)
      else split_acc (w @ [c]) cs)"

definition split :: "string \<Rightarrow> string list" where
  "split text = split_acc [] text"

text \<open>\<^verbatim>\<open>" ".join(ws)\<close>.\<close>

fun join :: "string list \<Rightarrow> string" where
  "join [] = []"
| "join [w] = w"
| "join (w # v # ws) = w @ '' '' @ join (v # ws)"

text \<open>\<^verbatim>\<open>needle in hay\<close> on strings: \<open>needle\<close> occurs in \<open>hay\<close> as a contiguous piece.\<close>

fun contains :: "string \<Rightarrow> string \<Rightarrow> bool" where
  "contains [] needle = (needle = [])"
| "contains (h # hs) needle = (prefix needle (h # hs) \<or> contains hs needle)"

text \<open>The slice \<^verbatim>\<open>xs[lo:hi]\<close> for Python integers: a negative bound counts from the end,
  and both bounds are clamped to the list.\<close>

definition py_slice :: "'a list \<Rightarrow> int \<Rightarrow> int \<Rightarrow> 'a list" where
  "py_slice xs lo hi =
     (let n = int (length xs);
          l = (if lo < 0 then max (lo + n) 0 else min lo n);
          h = (if hi < 0 then max (hi + n) 0 else min hi n)
      in take (nat (h - l)) (drop (nat l) xs))"

section \<open>Chunking\<close>

text \<open>
  \<^verbatim>\<open>chunk_text(text, chunk_size=500, overlap=50)\<close>, lines 37 to 56. The \<^verbatim>\<open>while\<close> loop
  runs forever when the step \<open>chunk_size - overlap\<close> is not positive and the text has a
  word, so the loop is a partial function: \<open>None\<close> is "does not return".
\<close>

partial_function (option) chunk_loop ::
  "string list \<Rightarrow> int \<Rightarrow> int \<Rightarrow> int \<Rightarrow> string list \<Rightarrow> string list option" where
  "chunk_loop words chunk_size overlap i chunks =
     (if i < int (length words)
      then chunk_loop words chunk_size overlap (i + (chunk_size - overlap))
             (chunks @ [join (py_slice words i (i + chunk_size))])
      else Some chunks)"

declare chunk_loop.simps [code]

definition chunk_text :: "string \<Rightarrow> int \<Rightarrow> int \<Rightarrow> string list option" where
  "chunk_text text chunk_size overlap = chunk_loop (split text) chunk_size overlap 0 []"

section \<open>Retrieval and reranking\<close>

subsection \<open>Values, failures and the collaborators of \<^verbatim>\<open>retrieve\<close>\<close>

text \<open>
  An exception is a value: \<open>NameError\<close> carries the unbound name, \<open>IndexError\<close> is a
  subscript out of range, and \<open>Raised\<close> is whatever one of the library objects handed to
  \<^verbatim>\<open>retrieve\<close> raises (the embedding model, the FAISS index, the BM25 index, the
  cross-encoder).
\<close>

datatype error = NameError string | IndexError | Raised string

text \<open>The Streamlit calls \<^verbatim>\<open>st.warning\<close> and \<^verbatim>\<open>st.info\<close> are collected in order.\<close>

datatype ui_msg = Warning string | Info string

text \<open>What \<^verbatim>\<open>retrieve\<close> returns: \<^verbatim>\<open>None\<close>, or the triple of the top candidate, its score and
  the ranked list of (candidate, score) pairs. Scores are real numbers; a NaN has no
  counterpart here.\<close>

datatype retrieve_result = PyNone | Result string real "(string \<times> real) list"

text \<open>
  Two library operations decide orders that the source leaves to them:
  \<^verbatim>\<open>np.argsort\<close>, and the iteration order of a Python \<^verbatim>\<open>set\<close> of strings as
  \<^verbatim>\<open>list(set(xs))\<close> reads it (it follows the string hashes, which change with the
  interpreter's hash seed).
\<close>

record runtime =
  np_argsort :: "real list \<Rightarrow> nat list"
  list_of_set :: "string list \<Rightarrow> string list"

text \<open>What NumPy documents of \<^verbatim>\<open>np.argsort\<close>: a permutation of the positions along which the
  values ascend. What Python documents of \<^verbatim>\<open>list(set(xs))\<close>: every element once.\<close>

definition is_argsort :: "(real list \<Rightarrow> nat list) \<Rightarrow> bool" where
  "is_argsort f =
     (\<forall>scores. distinct (f scores) \<and> set (f scores) = {..<length scores} \<and>
               sorted (map (\<lambda>i. scores ! i) (f scores)))"

definition is_set_listing :: "(string list \<Rightarrow> string list) \<Rightarrow> bool" where
  "is_set_listing f = (\<forall>xs. distinct (f xs) \<and> set (f xs) = set xs)"

text \<open>The subscript \<^verbatim>\<open>chunks[i]\<close>: a negative position counts from the end.\<close>

definition chunk_at :: "string list \<Rightarrow> int \<Rightarrow> error + string" where
  "chunk_at chunks i =
     (if 0 \<le> i \<and> i < int (length chunks) then Inr (chunks ! nat i)
      else if - int (length chunks) \<le> i \<and> i < 0 then Inr (chunks ! nat (i + int (length chunks)))
      else Inl IndexError)"

text \<open>The comprehension \<^verbatim>\<open>[chunks[i] for i in ids]\<close>.\<close>

fun chunks_at :: "string list \<Rightarrow> int list \<Rightarrow> error + string list" where
  "chunks_at chunks [] = Inr []"
| "chunks_at chunks (i # ids) =
     (case chunk_at chunks i of
        Inl e \<Rightarrow> Inl e
      | Inr c \<Rightarrow> (case chunks_at chunks ids of Inl e \<Rightarrow> Inl e | Inr cs \<Rightarrow> Inr (c # cs)))"

text \<open>\<^verbatim>\<open>sorted(xs, key=key, reverse=True)\<close>: CPython reverses the list, sorts it ascending
  with a stable sort, and reverses the outcome.\<close>

definition py_sorted_reverse :: "('a \<Rightarrow> real) \<Rightarrow> 'a list \<Rightarrow> 'a list" where
  "py_sorted_reverse key xs = rev (sort_key key (rev xs))"

subsection \<open>The stages of \<^verbatim>\<open>retrieve\<close>, lines 116 to 171\<close>

text \<open>The list literal of lines 131 to 134.\<close>

definition finance_keywords :: "string list" where
  "finance_keywords =
     [''revenue'', ''profit'', ''financial'', ''income'', ''expense'', ''cash'',
      ''growth'', ''market'', ''cost'', ''margin'', ''operating'']"

text \<open>
  Line 131 assigns that list to the name \<^verbatim>\<open>finance_keywords\<close> in the body of the inner
  \<^verbatim>\<open>def retrieve\<close> of line 129, a function that is never called. Line 136 reads the name
  in the outer function, which never assigns it, so Python looks it up among the module's
  globals. The lookup is the first argument of the model, and the module as written binds
  no such global.
\<close>

definition module_globals :: "string \<rightharpoonup> string list" where
  "module_globals = Map.empty"

text \<open>Line 136: \<^verbatim>\<open>any(word in query.lower() for word in finance_keywords)\<close>.\<close>

definition in_domain :: "string list \<Rightarrow> string \<Rightarrow> bool" where
  "in_domain keywords query = list_ex (\<lambda>word. contains (lower query) word) keywords"

text \<open>Lines 141 to 148: the query is encoded (twice), the index is searched, and the first
  row of the positions found selects the chunks.\<close>

definition dense_candidates ::
  "string list \<Rightarrow> (real list list \<Rightarrow> int \<Rightarrow> error + real list list \<times> int list list) \<Rightarrow>
   (string list \<Rightarrow> error + real list list) \<Rightarrow> string \<Rightarrow> int \<Rightarrow> error + string list" where
  "dense_candidates chunks embedding_index embed_model query top_k =
     (case embed_model [query] of
        Inl e \<Rightarrow> Inl e
      | Inr _ \<Rightarrow>
     (case embed_model [query] of
        Inl e \<Rightarrow> Inl e
      | Inr query_embedding \<Rightarrow>
     (case embedding_index query_embedding top_k of
        Inl e \<Rightarrow> Inl e
      | Inr (distances, indices) \<Rightarrow>
     (case indices of
        [] \<Rightarrow> Inl IndexError
      | row # _ \<Rightarrow> chunks_at chunks row))))"

text \<open>Line 153: \<^verbatim>\<open>np.argsort(bm25_scores)[::-1][:top_k]\<close>.\<close>

definition bm25_top_indices :: "runtime \<Rightarrow> real list \<Rightarrow> int \<Rightarrow> nat list" where
  "bm25_top_indices rt bm25_scores top_k = py_slice (rev (np_argsort rt bm25_scores)) 0 top_k"

text \<open>Lines 151 to 154.\<close>

definition lexical_candidates ::
  "runtime \<Rightarrow> string list \<Rightarrow> (string list \<Rightarrow> error + real list) \<Rightarrow> string \<Rightarrow> int \<Rightarrow>
   error + string list" where
  "lexical_candidates rt chunks bm25 query top_k =
     (case bm25 (split (lower query)) of
        Inl e \<Rightarrow> Inl e
      | Inr bm25_scores \<Rightarrow> chunks_at chunks (map int (bm25_top_indices rt bm25_scores top_k)))"

text \<open>Line 157: \<^verbatim>\<open>list(set(faiss_candidates + bm25_candidates))\<close>.\<close>

definition fuse :: "runtime \<Rightarrow> string list \<Rightarrow> string list \<Rightarrow> string list" where
  "fuse rt faiss_candidates bm25_candidates = list_of_set rt (faiss_candidates @ bm25_candidates)"

text \<open>Line 164: \<^verbatim>\<open>sorted(zip(candidate_set, cross_scores), key=lambda x: x[1], reverse=True)\<close>.\<close>

definition rerank :: "string list \<Rightarrow> real list \<Rightarrow> (string \<times> real) list" where
  "rerank candidate_set cross_scores = py_sorted_reverse snd (zip candidate_set cross_scores)"

text \<open>
  The literal \<^verbatim>\<open>0.3\<close> of line 168 is a double: the binary fraction nearest to three tenths,
  a little below it. A score is compared at its exact value.
\<close>

definition low_confidence_threshold :: real where
  "low_confidence_threshold = 5404319552844595 / 2 ^ 54"

text \<open>
  Lines 158 to 171, from the test of the fused list to the \<^verbatim>\<open>return\<close>: the reply for an empty
  list, the call of the cross-encoder, the sort, and the notice for a low top score. The
  result pairs the messages shown with the value returned or the exception raised.
\<close>

definition rank_and_report ::
  "string \<Rightarrow> string list \<Rightarrow> ((string \<times> string) list \<Rightarrow> error + real list) \<Rightarrow>
   ui_msg list \<times> (error + retrieve_result)" where
  "rank_and_report query candidate_set cross_encoder =
     (if candidate_set = []
      then ([], Inr (Result ''No relevant information found.'' 0 []))
      else
     (case cross_encoder (map (Pair query) candidate_set) of
        Inl e \<Rightarrow> ([], Inl e)
      | Inr cross_scores \<Rightarrow>
     (let ranked_candidates = rerank candidate_set cross_scores in
      case ranked_candidates of
        [] \<Rightarrow> ([], Inl IndexError)
      | (top_candidate, top_score) # _ \<Rightarrow>
          (if top_score < low_confidence_threshold
           then [Info ''Low confidence in retrieved answer.''] else [],
           Inr (Result top_candidate top_score ranked_candidates)))))"

text \<open>
  \<^verbatim>\<open>retrieve\<close>. The parameters \<^verbatim>\<open>embeddings\<close> and \<^verbatim>\<open>tokenized_corpus\<close> are never read and
  are left out.
\<close>

definition retrieve ::
  "(string \<rightharpoonup> string list) \<Rightarrow> runtime \<Rightarrow> string \<Rightarrow> string list \<Rightarrow>
   (real list list \<Rightarrow> int \<Rightarrow> error + real list list \<times> int list list) \<Rightarrow>
   (string list \<Rightarrow> error + real list list) \<Rightarrow>
   (string list \<Rightarrow> error + real list) \<Rightarrow>
   ((string \<times> string) list \<Rightarrow> error + real list) \<Rightarrow> int \<Rightarrow>
   ui_msg list \<times> (error + retrieve_result)" where
  "retrieve globals rt query chunks embedding_index embed_model bm25 cross_encoder top_k =
     (case globals ''finance_keywords'' of
        None \<Rightarrow> ([], Inl (NameError ''finance_keywords''))
      | Some keywords \<Rightarrow>
     if \<not> in_domain keywords query
     then ([Warning ''Query does not appear to be related to financial data.''], Inr PyNone)
     else
     (case dense_candidates chunks embedding_index embed_model query top_k of
        Inl e \<Rightarrow> ([], Inl e)
      | Inr faiss_candidates \<Rightarrow>
     (case lexical_candidates rt chunks bm25 query top_k of
        Inl e \<Rightarrow> ([], Inl e)
      | Inr bm25_candidates \<Rightarrow>
          rank_and_report query (fuse rt faiss_candidates bm25_candidates) cross_encoder)))"

subsection \<open>Building the indexes, lines 81 to 111\<close>



subsection \<open>Concrete collaborators for evaluation\<close>

text \<open>An index sort that keeps equal values in position order (a stable sort; this is what
  \<^verbatim>\<open>np.argsort\<close> answers on \<^verbatim>\<open>[0., 0.]\<close>), and two listings of a set in opposite orders.\<close>

definition stable_argsort :: "real list \<Rightarrow> nat list" where
  "stable_argsort scores = sort_key (\<lambda>i. scores ! i) [0..<length scores]"

definition listing_fwd :: "string list \<Rightarrow> string list" where
  "listing_fwd xs = remdups xs"

definition listing_bwd :: "string list \<Rightarrow> string list" where
  "listing_bwd xs = rev (remdups xs)"

definition rt_fwd :: runtime where
  "rt_fwd = \<lparr>np_argsort = stable_argsort, list_of_set = listing_fwd\<rparr>"

definition rt_bwd :: runtime where
  "rt_bwd = \<lparr>np_argsort = stable_argsort, list_of_set = listing_bwd\<rparr>"

text \<open>A cross-encoder whose batch \<^verbatim>\<open>predict\<close> applies one pairwise scoring function to every
  (query, passage) pair, and one that raises.\<close>

definition pointwise_encoder ::
  "(string \<times> string \<Rightarrow> real) \<Rightarrow> (string \<times> string) list \<Rightarrow> error + real list" where
  "pointwise_encoder pairwise_score pairs = Inr (map pairwise_score pairs)"

definition failing_encoder :: "(string \<times> string) list \<Rightarrow> error + real list" where
  "failing_encoder pairs = Inl (Raised ''scorer unavailable'')"

definition const_score :: "real \<Rightarrow> string \<times> string \<Rightarrow> real" where
  "const_score v pair = v"

definition length_score :: "string \<times> string \<Rightarrow> real" where
  "length_score pair = real (length (snd pair))"

text \<open>An embedding model that succeeds, an index whose search returns one fixed row of
  positions, and a BM25 index with fixed scores.\<close>

definition unit_embed_model :: "string list \<Rightarrow> error + real list list" where
  "unit_embed_model texts = Inr (map (\<lambda>t. [0, 0]) texts)"

definition fixed_index ::
  "int list \<Rightarrow> real list list \<Rightarrow> int \<Rightarrow> error + real list list \<times> int list list" where
  "fixed_index row query_embedding k = Inr ([map (\<lambda>i. 0) row], [row])"

definition fixed_bm25 :: "real list \<Rightarrow> string list \<Rightarrow> error + real list" where
  "fixed_bm25 scores tokens = Inr scores"



text \<open>The corpus and the query of the specification's scenario, and a corpus holding the
  same passage twice.\<close>

definition scenario_chunks :: "string list" where
  "scenario_chunks = [''revenue grew 10%'', ''weather was sunny'', ''operating margin improved'']"

definition scenario_query :: string where
  "scenario_query = ''What was the revenue growth?''"

definition repeated_chunks :: "string list" where
  "repeated_chunks = [''cash at bank'', ''cash at bank'']"

subsection \<open>The tie-break as the specification words it\<close>

text \<open>"Ties broken by ascending chunk id": among the positions returned, equal scores come
  in ascending position order.\<close>

definition ties_ascending_id :: "real list \<Rightarrow> nat list \<Rightarrow> bool" where
  "ties_ascending_id scores ids = sorted_wrt (\<lambda>i j. scores ! i = scores ! j \<longrightarrow> i < j) ids"

section \<open>Properties of the text primitives\<close>

definition is_word :: "string \<Rightarrow> bool" where
  "is_word w = (w \<noteq> [] \<and> list_all (\<lambda>c. \<not> is_space c) w)"

lemma contains_iff_sublist: "contains hay needle = sublist needle hay"
  by (induction hay) (auto simp: sublist_Cons_right)

lemma split_acc_words:
  "w = [] \<or> is_word w \<Longrightarrow> list_all is_word (split_acc w cs)"
  by (induction cs arbitrary: w) (auto simp: is_word_def)

lemma split_words: "list_all is_word (split text)"
  unfolding split_def by (rule split_acc_words) simp

lemma split_acc_append_word:
  "list_all (\<lambda>c. \<not> is_space c) u \<Longrightarrow> split_acc w (u @ rest) = split_acc (w @ u) rest"
  by (induction u arbitrary: w) auto

lemma space_is_space: "is_space CHR '' ''"
  by (simp add: is_space_def)

lemma split_acc_join:
  "list_all is_word ws \<Longrightarrow> split_acc [] (join ws) = ws"
proof (induction ws rule: join.induct)
  case 1
  show ?case by simp
next
  case (2 w)
  then have "split_acc [] (w @ []) = split_acc ([] @ w) []"
    by (intro split_acc_append_word) (simp add: is_word_def)
  with 2 show ?case by (simp add: is_word_def)
next
  case (3 w v ws)
  then have w: "w \<noteq> []" "list_all (\<lambda>c. \<not> is_space c) w"
    by (simp_all add: is_word_def)
  have "split_acc [] (w @ '' '' @ join (v # ws)) = split_acc ([] @ w) ('' '' @ join (v # ws))"
    using w(2) by (rule split_acc_append_word)
  also have "\<dots> = w # split_acc [] (join (v # ws))"
    using w(1) space_is_space by simp
  also have "\<dots> = w # v # ws"
    using 3 by simp
  finally show ?case by simp
qed

lemma split_join: "list_all is_word ws \<Longrightarrow> split (join ws) = ws"
  unfolding split_def by (rule split_acc_join)


section \<open>Properties of chunking\<close>

lemma py_slice_window:
  assumes "0 \<le> i" "i < int (length xs)" "0 < c"
  shows "py_slice xs i (i + c) = take (nat c) (drop (nat i) xs)"
proof -
  have "take (nat (min (i + c) (int (length xs)) - i)) (drop (nat i) xs)
        = take (nat c) (drop (nat i) xs)"
  proof (cases "i + c \<le> int (length xs)")
    case True
    then show ?thesis by (simp add: min_def)
  next
    case False
    then have "length (drop (nat i) xs) \<le> nat c" using assms by simp
    moreover have "length (drop (nat i) xs) \<le> nat (min (i + c) (int (length xs)) - i)"
      using False assms by (simp add: min_def) 
    ultimately show ?thesis by simp
  qed
  then show ?thesis using assms by (simp add: py_slice_def Let_def min_def)
qed

lemma chunk_loop_returns:
  assumes "0 \<le> overlap" "overlap < chunk_size" "list_all is_word words" "0 \<le> i"
  shows "\<exists>cs. chunk_loop words chunk_size overlap i acc = Some cs \<and> set acc \<subseteq> set cs \<and>
           (\<forall>j. nat i \<le> j \<and> j < length words \<longrightarrow> (\<exists>c\<in>set cs. words ! j \<in> set (split c)))"
  using assms(4)
proof (induction "nat (int (length words) - i)" arbitrary: i acc rule: less_induct)
  case less
  show ?case
  proof (cases "i < int (length words)")
    case False
    then show ?thesis using less.prems
      by (subst chunk_loop.simps) auto
  next
    case True
    define step where "step = chunk_size - overlap"
    define chunk where "chunk = join (py_slice words i (i + chunk_size))"
    have step: "0 < step" "step \<le> chunk_size" using assms by (simp_all add: step_def)
    have csz: "0 < chunk_size" using assms by simp
    have win: "py_slice words i (i + chunk_size) = take (nat chunk_size) (drop (nat i) words)"
      using less.prems True csz by (rule py_slice_window)
    have "list_all is_word (take (nat chunk_size) (drop (nat i) words))"
      using assms(3) by (auto simp: list_all_iff dest: in_set_takeD in_set_dropD)
    then have sp: "split chunk = take (nat chunk_size) (drop (nat i) words)"
      unfolding chunk_def win by (rule split_join)
    have "nat (int (length words) - (i + step)) < nat (int (length words) - i)"
      using True step by simp
    moreover have "0 \<le> i + step" using less.prems step by simp
    ultimately obtain cs where cs:
      "chunk_loop words chunk_size overlap (i + step) (acc @ [chunk]) = Some cs"
      "set (acc @ [chunk]) \<subseteq> set cs"
      "\<forall>j. nat (i + step) \<le> j \<and> j < length words \<longrightarrow> (\<exists>c\<in>set cs. words ! j \<in> set (split c))"
      using less.hyps[of "i + step" "acc @ [chunk]"] by blast
    have run: "chunk_loop words chunk_size overlap i acc = Some cs"
      using True cs(1) by (subst chunk_loop.simps) (simp add: step_def chunk_def)
    have cov: "\<exists>c\<in>set cs. words ! j \<in> set (split c)" if j: "nat i \<le> j" "j < length words" for j
    proof (cases "nat (i + step) \<le> j")
      case True
      then show ?thesis using cs(3) j by blast
    next
      case False
      then have "j - nat i < nat chunk_size" using j step less.prems by linarith
      moreover have "j - nat i < length (drop (nat i) words)" using j by simp
      ultimately have "(take (nat chunk_size) (drop (nat i) words)) ! (j - nat i) = words ! j"
        "j - nat i < length (take (nat chunk_size) (drop (nat i) words))"
        using j by simp_all
      then have "words ! j \<in> set (split chunk)"
        unfolding sp by (metis nth_mem)
      moreover have "chunk \<in> set cs" using cs(2) by simp
      ultimately show ?thesis by blast
    qed
    show ?thesis using run cs(2) cov by auto
  qed
qed

text \<open>
  Claim C10. With \<open>chunk_size > overlap \<ge> 0\<close>, \<^verbatim>\<open>chunk_text\<close> returns (the loop index
  grows by the positive step \<open>chunk_size - overlap\<close> until it passes the last word), and
  every word of the input text is a word of at least one returned chunk.
\<close>

theorem chunk_text_terminates_and_covers:
  assumes "0 \<le> overlap" and "overlap < chunk_size"
  shows "\<exists>chunks. chunk_text text chunk_size overlap = Some chunks \<and>
           (\<forall>w \<in> set (split text). \<exists>c \<in> set chunks. w \<in> set (split c))"
proof -
  obtain cs where cs: "chunk_loop (split text) chunk_size overlap 0 [] = Some cs"
    "\<forall>j. nat 0 \<le> j \<and> j < length (split text) \<longrightarrow> (\<exists>c\<in>set cs. split text ! j \<in> set (split c))"
    using chunk_loop_returns[OF assms split_words, of 0 "text" "[]"] by auto
  have "\<exists>c \<in> set cs. w \<in> set (split c)" if "w \<in> set (split text)" for w
    using that cs(2) by (auto simp: in_set_conv_nth)
  then show ?thesis using cs(1) by (auto simp: chunk_text_def)
qed

theorem chunk_text_terminates_and_covers_witness:
  "(0::int) \<le> 1 \<and> (1::int) < 3 \<and>
   (\<exists>chunks. chunk_text ''the quick  brown fox jumps'' 3 1 = Some chunks \<and>
      (\<forall>w \<in> set (split ''the quick  brown fox jumps''). \<exists>c \<in> set chunks. w \<in> set (split c)))"
  using chunk_text_terminates_and_covers [of 1 3 "''the quick  brown fox jumps''"] by simp

lemma chunk_text_example:
  "chunk_text ''the quick  brown fox jumps'' 3 1 =
     Some [''the quick brown'', ''brown fox jumps'', ''jumps'']"
  by code_simp

section \<open>Properties of retrieval\<close>

subsection \<open>The concrete collaborators keep the library contracts\<close>

lemma listing_fwd_ok: "is_set_listing listing_fwd"
  by (simp add: is_set_listing_def listing_fwd_def)

lemma listing_bwd_ok: "is_set_listing listing_bwd"
  by (simp add: is_set_listing_def listing_bwd_def)

lemma stable_argsort_ok: "is_argsort stable_argsort"
  by (auto simp: is_argsort_def stable_argsort_def)

subsection \<open>Chunk lookup\<close>

lemma chunks_at_map:
  "chunks_at chunks ids = Inr cs \<Longrightarrow> map (chunk_at chunks) ids = map Inr cs"
  by (induction ids arbitrary: cs) (auto split: sum.splits)

lemma chunk_at_member: "chunk_at chunks i = Inr c \<Longrightarrow> c \<in> set chunks"
  by (auto simp: chunk_at_def split: if_splits)

lemma chunks_at_subset: "chunks_at chunks ids = Inr cs \<Longrightarrow> set cs \<subseteq> set chunks"
  by (induction ids arbitrary: cs) (auto split: sum.splits dest: chunk_at_member)

lemma count_list_distinct: "distinct xs \<Longrightarrow> x \<in> set xs \<Longrightarrow> count_list xs x = 1"
  by (induction xs) auto

lemma chunks_at_image:
  assumes "chunks_at chunks ids = Inr cs"
  shows "Inr ` set cs = chunk_at chunks ` set ids"
proof -
  have "set (map Inr cs) = set (map (chunk_at chunks) ids)"
    using chunks_at_map [OF assms] by simp
  then show ?thesis by simp
qed

lemma dense_candidates_subset:
  "dense_candidates chunks embedding_index embed_model query top_k = Inr cs \<Longrightarrow> set cs \<subseteq> set chunks"
  by (auto simp: dense_candidates_def split: sum.splits list.splits dest!: chunks_at_subset)

lemma lexical_candidates_subset:
  "lexical_candidates rt chunks bm25 query top_k = Inr cs \<Longrightarrow> set cs \<subseteq> set chunks"
  by (auto simp: lexical_candidates_def split: sum.splits dest!: chunks_at_subset)

lemma lexical_candidates_cong:
  "np_argsort rt1 = np_argsort rt2 \<Longrightarrow>
   lexical_candidates rt1 chunks bm25 query top_k = lexical_candidates rt2 chunks bm25 query top_k"
  by (simp add: lexical_candidates_def bm25_top_indices_def split: sum.splits)

subsection \<open>The input guard\<close>

text \<open>
  Claim C1 says that \<^verbatim>\<open>retrieve\<close> returns the rejection exactly for the queries without a
  keyword. In the module as written the keyword list is not in scope at line 136, so every
  call raises \<^verbatim>\<open>NameError\<close> before any comparison, whatever the query and the collaborators.
\<close>

theorem retrieve_raises_name_error:
  "retrieve module_globals rt query chunks embedding_index embed_model bm25 cross_encoder top_k
     = ([], Inl (NameError ''finance_keywords''))"
  by (simp add: retrieve_def module_globals_def)

theorem retrieve_raises_name_error_witness:
  "retrieve module_globals rt_fwd ''What is the capital of France?'' scenario_chunks
     (fixed_index [0, 2, 1, -1, -1]) unit_embed_model (fixed_bm25 [0, 0, 0])
     (pointwise_encoder length_score) 5
   = ([], Inl (NameError ''finance_keywords'')) \<and>
   retrieve module_globals rt_fwd scenario_query scenario_chunks
     (fixed_index [0, 2, 1, -1, -1]) unit_embed_model (fixed_bm25 [1.2, 0, 0])
     (pointwise_encoder length_score) 5
   = ([], Inl (NameError ''finance_keywords''))"
  using retrieve_raises_name_error [of rt_fwd "''What is the capital of France?''" scenario_chunks
          "fixed_index [0, 2, 1, -1, -1]" unit_embed_model "fixed_bm25 [0, 0, 0]"
          "pointwise_encoder length_score" 5]
        retrieve_raises_name_error [of rt_fwd scenario_query scenario_chunks
          "fixed_index [0, 2, 1, -1, -1]" unit_embed_model "fixed_bm25 [1.2, 0, 0]"
          "pointwise_encoder length_score" 5]
  by (rule conjI)

text \<open>With the name bound to a list, the guard does what the claim says: rejection, with the
  warning and without a call to any collaborator, exactly when no keyword occurs in the
  lower-cased query.\<close>

lemma retrieve_guard_in_scope:
  assumes "globals ''finance_keywords'' = Some kws"
  shows "(snd (retrieve globals rt query chunks embedding_index embed_model bm25 cross_encoder top_k)
            = Inr PyNone) = (\<not> in_domain kws query)"
    and "\<not> in_domain kws query \<Longrightarrow>
         retrieve globals rt query chunks embedding_index embed_model bm25 cross_encoder top_k
           = ([Warning ''Query does not appear to be related to financial data.''], Inr PyNone)"
  using assms
  by (auto simp: retrieve_def rank_and_report_def Let_def split: sum.splits list.splits)

lemma in_domain_iff_sublist:
  "in_domain kws query = (\<exists>word \<in> set kws. sublist word (lower query))"
  by (simp add: in_domain_def list_ex_iff contains_iff_sublist)

lemma guard_examples:
  "in_domain finance_keywords scenario_query"
  "\<not> in_domain finance_keywords ''What is the capital of France?''"
  by code_simp+

subsection \<open>Fusion\<close>

text \<open>
  Claim C2, as amended. The candidates are chunk texts, not chunk ids: the fused list holds
  every text selected by either retriever once, so its length is the number of distinct texts
  at the positions in \<open>a\<close> or \<open>b\<close>. That is at most the number of distinct positions, and equal
  to it when the positions select pairwise different texts. A position found by both
  retrievers contributes one candidate.
\<close>

theorem fuse_is_union_by_text:
  assumes "is_set_listing (list_of_set rt)"
      and "chunks_at chunks a = Inr faiss_candidates"
      and "chunks_at chunks b = Inr bm25_candidates"
  shows "distinct (fuse rt faiss_candidates bm25_candidates) \<and>
         set (fuse rt faiss_candidates bm25_candidates) = set faiss_candidates \<union> set bm25_candidates \<and>
         length (fuse rt faiss_candidates bm25_candidates) = card (chunk_at chunks ` (set a \<union> set b)) \<and>
         length (fuse rt faiss_candidates bm25_candidates) \<le> card (set a \<union> set b) \<and>
         (inj_on (chunk_at chunks) (set a \<union> set b) \<longrightarrow>
            length (fuse rt faiss_candidates bm25_candidates) = card (set a \<union> set b)) \<and>
         (\<forall>i \<in> set a \<inter> set b. \<exists>c. chunk_at chunks i = Inr c \<and>
            count_list (fuse rt faiss_candidates bm25_candidates) c = 1)"
proof -
  let ?F = "fuse rt faiss_candidates bm25_candidates"
  have d: "distinct ?F" and s: "set ?F = set faiss_candidates \<union> set bm25_candidates"
    using assms(1) by (simp_all add: fuse_def is_set_listing_def)
  have img: "Inr ` (set faiss_candidates \<union> set bm25_candidates) = chunk_at chunks ` (set a \<union> set b)"
    using chunks_at_image [OF assms(2)] chunks_at_image [OF assms(3)] by (simp add: image_Un)
  have "length ?F = card (set ?F)"
    using d by (simp add: distinct_card)
  also have "\<dots> = card ((Inr :: string \<Rightarrow> error + string) ` (set faiss_candidates \<union> set bm25_candidates))"
    unfolding s by (simp add: card_image)
  finally have len: "length ?F = card (chunk_at chunks ` (set a \<union> set b))"
    unfolding img .
  have le: "length ?F \<le> card (set a \<union> set b)"
    unfolding len by (rule card_image_le) simp
  have eq: "length ?F = card (set a \<union> set b)" if "inj_on (chunk_at chunks) (set a \<union> set b)"
    unfolding len using that by (rule card_image)
  have once: "\<exists>c. chunk_at chunks i = Inr c \<and> count_list ?F c = 1" if "i \<in> set a \<inter> set b" for i
  proof -
    have "chunk_at chunks i \<in> Inr ` set faiss_candidates"
      using that chunks_at_image [OF assms(2)] by auto
    then obtain c where c: "chunk_at chunks i = Inr c" "c \<in> set faiss_candidates" by auto
    then have "c \<in> set ?F" using s by simp
    then have "count_list ?F c = 1" using d by (simp add: count_list_distinct)
    with c(1) show ?thesis by blast
  qed
  show ?thesis using d s len le eq once by blast
qed

theorem fuse_is_union_by_text_witness:
  "is_set_listing (list_of_set rt_fwd) \<and>
   chunks_at scenario_chunks [0, 2] = Inr [''revenue grew 10%'', ''operating margin improved''] \<and>
   chunks_at scenario_chunks [0, 1] = Inr [''revenue grew 10%'', ''weather was sunny''] \<and>
   distinct (fuse rt_fwd [''revenue grew 10%'', ''operating margin improved'']
                         [''revenue grew 10%'', ''weather was sunny'']) \<and>
   length (fuse rt_fwd [''revenue grew 10%'', ''operating margin improved'']
                       [''revenue grew 10%'', ''weather was sunny''])
     = card (chunk_at scenario_chunks ` (set [0, 2] \<union> set [0, 1])) \<and>
   count_list (fuse rt_fwd [''revenue grew 10%'', ''operating margin improved'']
                           [''revenue grew 10%'', ''weather was sunny''])
     ''revenue grew 10%'' = 1"
proof -
  let ?F = "fuse rt_fwd [''revenue grew 10%'', ''operating margin improved'']
                        [''revenue grew 10%'', ''weather was sunny'']"
  have h1: "is_set_listing (list_of_set rt_fwd)"
    by (simp add: rt_fwd_def listing_fwd_ok)
  have h2: "chunks_at scenario_chunks [0, 2] = Inr [''revenue grew 10%'', ''operating margin improved'']"
    by code_simp
  have h3: "chunks_at scenario_chunks [0, 1] = Inr [''revenue grew 10%'', ''weather was sunny'']"
    by code_simp
  note main = fuse_is_union_by_text [OF h1 h2 h3]
  have both: "(0::int) \<in> set [0, 2] \<inter> set [0, 1]" by simp
  have at0: "chunk_at scenario_chunks 0 = Inr ''revenue grew 10%''" by code_simp
  obtain c where "chunk_at scenario_chunks 0 = Inr c" "count_list ?F c = 1"
    using main both by blast
  then have "count_list ?F ''revenue grew 10%'' = 1"
    using at0 by simp
  then show ?thesis
    using h1 h2 h3 main by blast
qed

text \<open>The claim as stated fails on a corpus that holds one passage at two positions: the
  retrievers return two distinct ids, the fused list has one candidate.\<close>

theorem fuse_size_counterexample:
  "chunks_at repeated_chunks [0] = Inr [''cash at bank''] \<and>
   chunks_at repeated_chunks [1] = Inr [''cash at bank''] \<and>
   length (fuse rt_fwd [''cash at bank''] [''cash at bank'']) = 1 \<and>
   length (fuse rt_bwd [''cash at bank''] [''cash at bank'']) = 1 \<and>
   card (set [0 :: int] \<union> set [1]) = 2"
  by code_simp

subsection \<open>Reranking\<close>

lemma py_sorted_reverse_sorted:
  "sorted_wrt (\<lambda>x y. key y \<le> key x) (py_sorted_reverse key xs)"
proof -
  have "sorted (map key (sort_key key (rev xs)))" by simp
  then have "sorted_wrt (\<lambda>x y. key x \<le> key y) (sort_key key (rev xs))"
    by (simp add: sorted_map)
  then show ?thesis
    unfolding py_sorted_reverse_def by (simp add: sorted_wrt_rev)
qed

lemma py_sorted_reverse_stable:
  "filter (\<lambda>x. key x = v) (py_sorted_reverse key xs) = filter (\<lambda>x. key x = v) xs"
  unfolding py_sorted_reverse_def by (simp add: rev_filter [symmetric] sort_key_stable)

text \<open>
  Claim C3. The reranked sequence is non-increasing in the score, and the pairs of any one
  score keep the relative order they had in the fused sequence.
\<close>

theorem rerank_sorted_and_stable:
  "sorted_wrt (\<lambda>p q. snd q \<le> snd p) (rerank candidate_set cross_scores) \<and>
   (\<forall>v. filter (\<lambda>p. snd p = v) (rerank candidate_set cross_scores)
          = filter (\<lambda>p. snd p = v) (zip candidate_set cross_scores))"
  unfolding rerank_def by (simp add: py_sorted_reverse_sorted py_sorted_reverse_stable)

theorem rerank_sorted_and_stable_witness:
  "sorted_wrt (\<lambda>p q. snd q \<le> snd p) (rerank [''a'', ''b'', ''c'', ''d''] [0.5, 0.9, 0.5, 0.9]) \<and>
   (\<forall>v. filter (\<lambda>p. snd p = v) (rerank [''a'', ''b'', ''c'', ''d''] [0.5, 0.9, 0.5, 0.9])
          = filter (\<lambda>p. snd p = v) (zip [''a'', ''b'', ''c'', ''d''] [0.5, 0.9, 0.5, 0.9]))"
  using rerank_sorted_and_stable [of "[''a'', ''b'', ''c'', ''d'']" "[0.5, 0.9, 0.5, 0.9]"] .

lemma rerank_example:
  "rerank [''a'', ''b'', ''c'', ''d''] [0.5, 0.9, 0.5, 0.9]
     = [(''b'', 0.9), (''d'', 0.9), (''a'', 0.5), (''c'', 0.5)]"
  by code_simp

text \<open>The ranked list that \<^verbatim>\<open>retrieve\<close> returns is such a reranked sequence, headed by the
  top candidate and its score.\<close>

lemma retrieve_ranked_is_rerank:
  assumes "retrieve globals rt query chunks embedding_index embed_model bm25 cross_encoder top_k
             = (msgs, Inr (Result top_candidate top_score ranked))"
      and "ranked \<noteq> []"
  shows "\<exists>candidate_set cross_scores. ranked = rerank candidate_set cross_scores \<and>
           hd ranked = (top_candidate, top_score)"
  using assms
  by (auto simp: retrieve_def rank_and_report_def Let_def
           split: option.splits if_splits sum.splits list.splits)
     metis+

lemma retrieve_ranked_sorted:
  assumes "retrieve globals rt query chunks embedding_index embed_model bm25 cross_encoder top_k
             = (msgs, Inr (Result top_candidate top_score ranked))"
      and "ranked \<noteq> []"
  shows "sorted_wrt (\<lambda>p q. snd q \<le> snd p) ranked"
proof -
  obtain candidate_set cross_scores where "ranked = rerank candidate_set cross_scores"
    using retrieve_ranked_is_rerank [OF assms] by blast
  then show ?thesis
    by (simp add: rerank_def py_sorted_reverse_sorted)
qed

lemma sort_key_unique:
  fixes key :: "'a \<Rightarrow> real"
  assumes "distinct xs" "distinct ys" "set xs = set ys" "inj_on key (set xs)"
  shows "sort_key key xs = sort_key key ys"
proof -
  have "map key (sort_key key xs) = map key (sort_key key ys)"
  proof (rule sorted_distinct_set_unique)
    show "distinct (map key (sort_key key xs))"
      using assms(1,4) by (simp add: distinct_map)
    show "distinct (map key (sort_key key ys))"
      using assms(2,3,4) by (simp add: distinct_map)
    show "set (map key (sort_key key xs)) = set (map key (sort_key key ys))"
      using assms(3) by simp
  qed simp_all
  moreover have "inj_on key (set (sort_key key xs) \<union> set (sort_key key ys))"
    using assms(3,4) by simp
  ultimately show ?thesis by (rule map_inj_on)
qed

lemma rerank_order_independent:
  assumes "distinct cs1" "distinct cs2" "set cs1 = set cs2" "inj_on f (set cs1)"
  shows "rerank cs1 (map f cs1) = rerank cs2 (map f cs2)"
proof -
  have z: "zip cs (map f cs) = map (\<lambda>c. (c, f c)) cs" for cs :: "string list"
    by (induction cs) auto
  have inj: "inj_on (\<lambda>c. (c, f c)) A" for A by (simp add: inj_on_def)
  have "sort_key snd (rev (map (\<lambda>c. (c, f c)) cs1)) = sort_key snd (rev (map (\<lambda>c. (c, f c)) cs2))"
  proof (rule sort_key_unique)
    show "distinct (rev (map (\<lambda>c. (c, f c)) cs1))" using assms(1) inj by (simp add: distinct_map)
    show "distinct (rev (map (\<lambda>c. (c, f c)) cs2))" using assms(2) inj by (simp add: distinct_map)
    show "set (rev (map (\<lambda>c. (c, f c)) cs1)) = set (rev (map (\<lambda>c. (c, f c)) cs2))"
      using assms(3) by simp
    show "inj_on snd (set (rev (map (\<lambda>c. (c, f c)) cs1)))"
      using assms(4) by (auto simp: inj_on_def)
  qed
  then show ?thesis by (simp add: rerank_def py_sorted_reverse_def z)
qed

subsection \<open>Lexical top-k\<close>

lemma py_slice_prefix: "0 \<le> k \<Longrightarrow> py_slice xs 0 k = take (nat k) xs"
  by (auto simp: py_slice_def Let_def min_def)

text \<open>
  Claim C8, as amended. For \<open>k \<ge> 0\<close> the selection returns \<open>min k n\<close> distinct positions in
  non-increasing score order, and no position left out scores higher than one returned.
  Equal scores come in the reverse of the order \<^verbatim>\<open>np.argsort\<close> gave them.
\<close>

theorem bm25_top_indices_highest_descending:
  assumes "is_argsort (np_argsort rt)" and "0 \<le> top_k"
  shows "bm25_top_indices rt scores top_k = take (nat top_k) (rev (np_argsort rt scores)) \<and>
         length (bm25_top_indices rt scores top_k) = min (nat top_k) (length scores) \<and>
         distinct (bm25_top_indices rt scores top_k) \<and>
         set (bm25_top_indices rt scores top_k) \<subseteq> {..<length scores} \<and>
         sorted_wrt (\<lambda>i j. scores ! j \<le> scores ! i) (bm25_top_indices rt scores top_k) \<and>
         (\<forall>i \<in> set (bm25_top_indices rt scores top_k). \<forall>j < length scores.
            j \<notin> set (bm25_top_indices rt scores top_k) \<longrightarrow> scores ! j \<le> scores ! i)"
proof -
  define ord where "ord = rev (np_argsort rt scores)"
  have r: "bm25_top_indices rt scores top_k = take (nat top_k) ord"
    using assms(2) by (simp add: bm25_top_indices_def ord_def py_slice_prefix)
  have d: "distinct ord" and s: "set ord = {..<length scores}"
    and so: "sorted (map (\<lambda>i. scores ! i) (np_argsort rt scores))"
    using assms(1) by (simp_all add: is_argsort_def ord_def)
  have "sorted_wrt (\<lambda>i j. scores ! i \<le> scores ! j) (np_argsort rt scores)"
    using so by (simp add: sorted_map)
  then have desc: "sorted_wrt (\<lambda>i j. scores ! j \<le> scores ! i) ord"
    by (simp add: ord_def sorted_wrt_rev)
  have "length ord = length scores"
    using d s by (metis card_lessThan distinct_card)
  then have len: "length (take (nat top_k) ord) = min (nat top_k) (length scores)"
    by (simp add: min.commute)
  have d': "distinct (take (nat top_k) ord)" using d by simp
  have s': "set (take (nat top_k) ord) \<subseteq> {..<length scores}"
    using s set_take_subset by fastforce
  have desc': "sorted_wrt (\<lambda>i j. scores ! j \<le> scores ! i) (take (nat top_k) ord)"
    using desc by (rule sorted_wrt_take)
  have "sorted_wrt (\<lambda>i j. scores ! j \<le> scores ! i) (take (nat top_k) ord @ drop (nat top_k) ord)"
    using desc by simp
  then have cross: "\<forall>i \<in> set (take (nat top_k) ord). \<forall>j \<in> set (drop (nat top_k) ord). scores ! j \<le> scores ! i"
    unfolding sorted_wrt_append by blast
  have dom: "scores ! j \<le> scores ! i"
    if "i \<in> set (take (nat top_k) ord)" "j < length scores" "j \<notin> set (take (nat top_k) ord)" for i j
  proof -
    have "j \<in> set (take (nat top_k) ord @ drop (nat top_k) ord)"
      using that(2) s by simp
    then have "j \<in> set (drop (nat top_k) ord)"
      using that(3) by (metis Un_iff set_append)
    then show ?thesis using cross that(1) by blast
  qed
  have r': "bm25_top_indices rt scores top_k = take (nat top_k) (rev (np_argsort rt scores))"
    using r by (simp add: ord_def)
  show ?thesis
    using r' len d' s' desc' dom unfolding r [symmetric] by blast
qed

theorem bm25_top_indices_highest_descending_witness:
  "is_argsort (np_argsort rt_fwd) \<and> (0::int) \<le> 2 \<and>
   bm25_top_indices rt_fwd [1.2, 0, 0] 2 = take (nat 2) (rev (np_argsort rt_fwd [1.2, 0, 0])) \<and>
   length (bm25_top_indices rt_fwd [1.2, 0, 0] 2) = min (nat 2) (length [1.2, 0, 0 :: real]) \<and>
   distinct (bm25_top_indices rt_fwd [1.2, 0, 0] 2) \<and>
   set (bm25_top_indices rt_fwd [1.2, 0, 0] 2) \<subseteq> {..<length [1.2, 0, 0 :: real]} \<and>
   sorted_wrt (\<lambda>i j. [1.2, 0, 0 :: real] ! j \<le> [1.2, 0, 0] ! i) (bm25_top_indices rt_fwd [1.2, 0, 0] 2)"
proof -
  have h1: "is_argsort (np_argsort rt_fwd)"
    by (simp add: rt_fwd_def stable_argsort_ok)
  have h2: "(0::int) \<le> 2" by simp
  show ?thesis
    using h1 h2 bm25_top_indices_highest_descending [OF h1 h2, of "[1.2, 0, 0]"] by blast
qed

text \<open>With an index sort that keeps equal scores in position order, the reversal returns
  them in descending position order, against the ascending order of the claim.\<close>

lemma insort_key_keeps_ties:
  fixes f :: "nat \<Rightarrow> real"
  assumes "sorted_wrt (\<lambda>i j. f i < f j \<or> (f i = f j \<and> i < j)) ys" and "\<forall>y \<in> set ys. x < y"
  shows "sorted_wrt (\<lambda>i j. f i < f j \<or> (f i = f j \<and> i < j)) (insort_key f x ys)"
  using assms by (induction ys) (auto simp: set_insort_key)

lemma sort_key_keeps_ties:
  fixes f :: "nat \<Rightarrow> real"
  assumes "sorted_wrt (<) xs"
  shows "sorted_wrt (\<lambda>i j. f i < f j \<or> (f i = f j \<and> i < j)) (sort_key f xs)"
  using assms by (induction xs) (auto intro!: insort_key_keeps_ties)

lemma stable_argsort_ties_descending:
  assumes "0 \<le> top_k"
  shows "sorted_wrt (\<lambda>i j. scores ! i = scores ! j \<longrightarrow> j < i)
           (bm25_top_indices \<lparr>np_argsort = stable_argsort, list_of_set = ls\<rparr> scores top_k)"
proof -
  have "sorted_wrt (\<lambda>i j. scores ! i < scores ! j \<or> (scores ! i = scores ! j \<and> i < j))
          (stable_argsort scores)"
    unfolding stable_argsort_def by (rule sort_key_keeps_ties) simp
  then have "sorted_wrt (\<lambda>i j. scores ! i = scores ! j \<longrightarrow> i < j) (stable_argsort scores)"
    by (rule sorted_wrt_mono_rel [rotated]) auto
  then have "sorted_wrt (\<lambda>i j. scores ! i = scores ! j \<longrightarrow> j < i) (rev (stable_argsort scores))"
    unfolding sorted_wrt_rev by (rule sorted_wrt_mono_rel [rotated]) auto
  then show ?thesis
    using assms by (simp add: bm25_top_indices_def py_slice_prefix sorted_wrt_take)
qed

theorem top_k_tie_counterexample:
  "is_argsort (np_argsort rt_fwd) \<and>
   np_argsort rt_fwd [0, 0] = [0, 1] \<and>
   bm25_top_indices rt_fwd [0, 0] 2 = [1, 0] \<and>
   \<not> ties_ascending_id [0, 0] (bm25_top_indices rt_fwd [0, 0] 2)"
proof -
  have "is_argsort (np_argsort rt_fwd)"
    by (simp add: rt_fwd_def stable_argsort_ok)
  moreover have "np_argsort rt_fwd [0, 0] = [0, 1]" by code_simp
  moreover have "bm25_top_indices rt_fwd [0, 0] 2 = [1, 0]" by code_simp
  moreover have "\<not> ties_ascending_id [0, 0] (bm25_top_indices rt_fwd [0, 0] 2)" by code_simp
  ultimately show ?thesis by blast
qed

subsection \<open>Ranking and reporting, lines 158 to 171\<close>

text \<open>What the block does from the fused list on: with a scorer that answers and a top score
  below the threshold it shows the notice and returns the whole triple; with an empty list
  it returns, as a value, the triple that reports that nothing was found.\<close>

lemma rank_and_report_result:
  assumes "cross_encoder (map (Pair query) candidate_set) = Inr cross_scores"
      and "rerank candidate_set cross_scores = (top_candidate, top_score) # rest"
  shows "rank_and_report query candidate_set cross_encoder
           = (if top_score < low_confidence_threshold
              then [Info ''Low confidence in retrieved answer.''] else [],
              Inr (Result top_candidate top_score ((top_candidate, top_score) # rest)))"
proof -
  have "candidate_set \<noteq> []"
    using assms(2) by (auto simp: rerank_def py_sorted_reverse_def)
  then show ?thesis
    using assms by (simp add: rank_and_report_def Let_def)
qed

lemma rank_and_report_empty_iff:
  "(rank_and_report query candidate_set cross_encoder
      = ([], Inr (Result ''No relevant information found.'' 0 []))) = (candidate_set = [])"
  by (auto simp: rank_and_report_def Let_def split: sum.splits list.splits)

lemma fuse_empty_iff:
  assumes "is_set_listing (list_of_set rt)"
  shows "(fuse rt faiss_candidates bm25_candidates = [])
           = (faiss_candidates = [] \<and> bm25_candidates = [])"
proof -
  have "set (fuse rt faiss_candidates bm25_candidates) = set (faiss_candidates @ bm25_candidates)"
    using assms by (simp add: fuse_def is_set_listing_def)
  then show ?thesis
    by (metis append_is_Nil_conv set_empty)
qed

lemma threshold_below_three_tenths:
  "low_confidence_threshold < 0.3" "(0.15 :: real) < low_confidence_threshold"
  by (simp_all add: low_confidence_threshold_def)

text \<open>
  Claim C5 says that a query with a keyword whose top reranked score is below the threshold
  still gets the full result, marked as low-confidence. The block of lines 158 to 171 would
  do so, but the call never gets there: for the scenario's query, which holds a keyword,
  and a scorer that gives every passage 0.15, \<^verbatim>\<open>retrieve\<close> raises \<^verbatim>\<open>NameError\<close> at line 136
  and returns nothing.
\<close>

theorem low_confidence_query_raises:
  "in_domain finance_keywords scenario_query \<and>
   rank_and_report scenario_query
     [''revenue grew 10%'', ''operating margin improved'', ''weather was sunny'']
     (pointwise_encoder (const_score 0.15))
   = ([Info ''Low confidence in retrieved answer.''],
      Inr (Result ''revenue grew 10%'' 0.15
        [(''revenue grew 10%'', 0.15), (''operating margin improved'', 0.15),
         (''weather was sunny'', 0.15)])) \<and>
   retrieve module_globals rt_fwd scenario_query scenario_chunks
     (fixed_index [0, 2, 1, -1, -1]) unit_embed_model (fixed_bm25 [1.2, 0, 0])
     (pointwise_encoder (const_score 0.15)) 5
   = ([], Inl (NameError ''finance_keywords''))"
proof -
  have "in_domain finance_keywords scenario_query" by code_simp
  moreover have "rank_and_report scenario_query
     [''revenue grew 10%'', ''operating margin improved'', ''weather was sunny'']
     (pointwise_encoder (const_score 0.15))
   = ([Info ''Low confidence in retrieved answer.''],
      Inr (Result ''revenue grew 10%'' 0.15
        [(''revenue grew 10%'', 0.15), (''operating margin improved'', 0.15),
         (''weather was sunny'', 0.15)]))"
    by code_simp
  moreover have "retrieve module_globals rt_fwd scenario_query scenario_chunks
     (fixed_index [0, 2, 1, -1, -1]) unit_embed_model (fixed_bm25 [1.2, 0, 0])
     (pointwise_encoder (const_score 0.15)) 5
   = ([], Inl (NameError ''finance_keywords''))"
    by (simp add: retrieve_def module_globals_def)
  ultimately show ?thesis by blast
qed


text \<open>
  Claim C7, as amended. The cross-encoder is called at line 163 outside any handler: when
  the scorer raises during reranking, the block ends with that exception, and neither the
  candidates in fusion order nor any status is returned.
\<close>

theorem scorer_failure_propagates:
  assumes "candidate_set \<noteq> []"
      and "cross_encoder (map (Pair query) candidate_set) = Inl e"
  shows "rank_and_report query candidate_set cross_encoder = ([], Inl e)"
  using assms by (simp add: rank_and_report_def)

theorem scorer_failure_propagates_witness:
  "[''revenue grew 10%''] \<noteq> [] \<and>
   failing_encoder (map (Pair scenario_query) [''revenue grew 10%''])
     = Inl (Raised ''scorer unavailable'') \<and>
   rank_and_report scenario_query [''revenue grew 10%''] failing_encoder
     = ([], Inl (Raised ''scorer unavailable''))"
proof -
  have h1: "[''revenue grew 10%''] \<noteq> []" by simp
  have h2: "failing_encoder (map (Pair scenario_query) [''revenue grew 10%''])
              = Inl (Raised ''scorer unavailable'')"
    by (simp add: failing_encoder_def)
  show ?thesis
    using h1 h2 scorer_failure_propagates [where cross_encoder = failing_encoder, OF h1 h2]
    by blast
qed

text \<open>The claim as stated fails: handed the scenario's three fused candidates and a scorer
  that raises, the block raises too, and returns no candidates and no "unscored" status.\<close>

theorem scorer_failure_counterexample:
  "rank_and_report scenario_query
     [''revenue grew 10%'', ''operating margin improved'', ''weather was sunny'']
     failing_encoder
   = ([], Inl (Raised ''scorer unavailable''))"
  by code_simp

subsection \<open>The dense search\<close>

text \<open>
  The encoded query goes to the index as it is, and no handler surrounds the search: a
  search that raises ends the dense stage with that exception. Whether the search of the
  FAISS index raises on a vector of the wrong length is decided inside that library.
\<close>

lemma search_failure_propagates:
  assumes "embed_model [query] = Inr query_embedding"
      and "embedding_index query_embedding top_k = Inl e"
  shows "dense_candidates chunks embedding_index embed_model query top_k = Inl e"
  using assms by (simp add: dense_candidates_def)

subsection \<open>Repeated runs\<close>




text \<open>
  Between two interpreter processes the enumeration order of the fused set may differ. The
  stable sort keeps that order among equal scores, so the block then still gives one
  outcome for both orders when the scorer gives the fused candidates pairwise different
  scores.
\<close>

lemma rank_and_report_order_independent:
  assumes "distinct cs1" "distinct cs2" "set cs1 = set cs2"
      and "inj_on (\<lambda>c. pairwise_score (query, c)) (set cs1)"
  shows "rank_and_report query cs1 (pointwise_encoder pairwise_score)
         = rank_and_report query cs2 (pointwise_encoder pairwise_score)"
proof -
  define f where "f = (\<lambda>c. pairwise_score (query, c))"
  have rr: "rerank cs1 (map f cs1) = rerank cs2 (map f cs2)"
    using assms unfolding f_def by (intro rerank_order_independent)
  have emp: "(cs1 = []) = (cs2 = [])"
    using assms(3) by (metis set_empty)
  have pe: "pointwise_encoder pairwise_score (map (Pair query) cs) = Inr (map f cs)" for cs
    by (simp add: pointwise_encoder_def f_def comp_def)
  show ?thesis
    unfolding rank_and_report_def pe Let_def sum.case rr using emp by simp
qed

end
